theory Spec2Isabelle
  imports Complex_Main
begin

section \<open>PageRank: transition model, random surfer and Markov mixing\<close>

text \<open>
  A shallow embedding of \<^verbatim>\<open>pagerank.py\<close>. Python lists are HOL lists, Python's
  unbounded integers are \<^typ>\<open>int\<close>, and every exception the code can raise is a value
  of \<open>py_error\<close>, returned on the left of a sum.

  A Python \<^verbatim>\<open>float\<close> is a finite double, held as the rational it denotes
  (\<^typ>\<open>rat\<close>). Where a float result is only stored or printed (\<open>compute_transition\<close>,
  \<open>markov_mixing\<close>, the final division of \<open>random_surfer\<close>) the arithmetic is the exact
  one the code writes down, without rounding. Where the control flow depends on a float
  result, the running sum that \<open>make_one_move\<close> compares with the drawn value, the
  addition is the double-precision one, rounded to nearest with ties to even.
  Infinities and NaN are outside the model.
\<close>

subsection \<open>Exceptions and list access\<close>

datatype py_error = IndexError | ZeroDivisionError | TypeError

text \<open>
  \<^verbatim>\<open>xs[k]\<close> as Python reads it: an index in \<open>[-len, len)\<close> is accepted, a negative
  one counts from the end, anything else raises \<^verbatim>\<open>IndexError\<close>.
\<close>

definition py_pos :: "'a list \<Rightarrow> int \<Rightarrow> nat" where
  "py_pos xs k = nat (if k < 0 then k + int (length xs) else k)"

definition py_in_range :: "'a list \<Rightarrow> int \<Rightarrow> bool" where
  "py_in_range xs k \<longleftrightarrow> - int (length xs) \<le> k \<and> k < int (length xs)"

definition getitem :: "'a list \<Rightarrow> int \<Rightarrow> py_error + 'a" where
  "getitem xs k = (if py_in_range xs k then Inr (xs ! py_pos xs k) else Inl IndexError)"

definition setitem :: "'a list \<Rightarrow> int \<Rightarrow> 'a \<Rightarrow> py_error + 'a list" where
  "setitem xs k v = (if py_in_range xs k then Inr (xs[py_pos xs k := v]) else Inl IndexError)"

text \<open>
  \<^verbatim>\<open>m[i][j] = v\<close>: the row \<^verbatim>\<open>m[i]\<close> is fetched and updated in place. Every matrix
  the program builds has one fresh list per row, so no two rows alias and the update
  is the functional one.
\<close>

definition setitem2 :: "'a list list \<Rightarrow> int \<Rightarrow> int \<Rightarrow> 'a \<Rightarrow> py_error + 'a list list" where
  "setitem2 m i j v =
     (case getitem m i of
        Inl e \<Rightarrow> Inl e
      | Inr row \<Rightarrow>
          (case setitem row j v of
             Inl e \<Rightarrow> Inl e
           | Inr row' \<Rightarrow> Inr (m[py_pos m i := row'])))"

subsection \<open>\<^verbatim>\<open>compute_transition\<close>\<close>

text \<open>
  The right-hand side of line 90,
  \<^verbatim>\<open>(0.9 * counts[i][j]/out_degree[i]) + (0.1 * 1/n)\<close>, in Python's evaluation order:
  \<^verbatim>\<open>counts[i][j]\<close> is read first, then \<^verbatim>\<open>out_degree[i]\<close>, and the division raises
  \<^verbatim>\<open>ZeroDivisionError\<close> on a zero divisor. Both \<open>*\<close> and \<open>/\<close> associate to the left in
  Python and in HOL alike.
\<close>

definition transition_entry ::
    "int list list \<Rightarrow> int list \<Rightarrow> nat \<Rightarrow> nat \<Rightarrow> nat \<Rightarrow> py_error + rat" where
  "transition_entry counts out_degree n i j =
     (case getitem counts (int i) of
        Inl e \<Rightarrow> Inl e
      | Inr crow \<Rightarrow>
          (case getitem crow (int j) of
             Inl e \<Rightarrow> Inl e
           | Inr c \<Rightarrow>
               (case getitem out_degree (int i) of
                  Inl e \<Rightarrow> Inl e
                | Inr d \<Rightarrow>
                    if d = 0 then Inl ZeroDivisionError
                    else if n = 0 then Inl ZeroDivisionError
                    else Inr ((0.9 * of_int c / of_int d) + (0.1 * 1 / of_nat n)))))"

text \<open>The inner loop \<^verbatim>\<open>for j in range(n)\<close> of lines 89-90, over the columns still to do.\<close>

fun transition_cols ::
    "int list list \<Rightarrow> int list \<Rightarrow> nat \<Rightarrow> nat \<Rightarrow> nat list \<Rightarrow> rat list list
      \<Rightarrow> py_error + rat list list" where
  "transition_cols counts out_degree n i [] tm = Inr tm"
| "transition_cols counts out_degree n i (j # js) tm =
     (case transition_entry counts out_degree n i j of
        Inl e \<Rightarrow> Inl e
      | Inr v \<Rightarrow>
          (case setitem2 tm (int i) (int j) v of
             Inl e \<Rightarrow> Inl e
           | Inr tm' \<Rightarrow> transition_cols counts out_degree n i js tm'))"

text \<open>The outer loop \<^verbatim>\<open>for i in range(n)\<close> of line 88, over the rows still to do.\<close>

fun transition_rows ::
    "int list list \<Rightarrow> int list \<Rightarrow> nat \<Rightarrow> nat list \<Rightarrow> rat list list
      \<Rightarrow> py_error + rat list list" where
  "transition_rows counts out_degree n [] tm = Inr tm"
| "transition_rows counts out_degree n (i # is) tm =
     (case transition_cols counts out_degree n i [0..<n] tm of
        Inl e \<Rightarrow> Inl e
      | Inr tm' \<Rightarrow> transition_rows counts out_degree n is tm')"

text \<open>
  Lines 82-92: \<open>n\<close> is the length of \<^verbatim>\<open>out_degree\<close>, the matrix starts as \<open>n\<close> fresh
  rows of \<open>n\<close> zeros, and the two loops overwrite every cell.
\<close>

definition compute_transition :: "int list list \<Rightarrow> int list \<Rightarrow> py_error + rat list list" where
  "compute_transition counts out_degree =
     (let n = length out_degree
      in transition_rows counts out_degree n [0..<n] (replicate n (replicate n 0)))"

subsection \<open>Double-precision addition\<close>

text \<open>
  Rounding a rational to the nearest double. \<open>ulp x\<close> is the spacing of the doubles
  around \<open>x\<close>: \<open>2^(e - 52)\<close> where \<open>2^e \<le> |x| < 2^(e + 1)\<close>, with \<open>e\<close> no smaller than
  \<open>-1022\<close> (below that the doubles are subnormal and evenly spaced) and, in this model,
  no larger than \<open>1023\<close>: a sum of magnitude \<open>2^1024\<close> or more, which Python turns into an
  infinity, is not modelled. The two searches walk \<open>|x|\<close> into \<open>[1, 2)\<close> by halving or
  doubling, at most as often as there are exponents on that side.
\<close>

fun ulp_up :: "nat \<Rightarrow> rat \<Rightarrow> rat \<Rightarrow> rat" where
  "ulp_up 0 a u = u"
| "ulp_up (Suc k) a u = (if 2 \<le> a then ulp_up k (a / 2) (u * 2) else u)"

fun ulp_down :: "nat \<Rightarrow> rat \<Rightarrow> rat \<Rightarrow> rat" where
  "ulp_down 0 a u = u"
| "ulp_down (Suc k) a u = (if a < 1 then ulp_down k (a * 2) (u / 2) else u)"

definition ulp :: "rat \<Rightarrow> rat" where
  "ulp x = (if 1 \<le> \<bar>x\<bar> then ulp_up 1023 \<bar>x\<bar> (1 / 2 ^ 52)
            else ulp_down 1022 \<bar>x\<bar> (1 / 2 ^ 52))"

definition round_half_even :: "rat \<Rightarrow> int" where
  "round_half_even q =
     (let f = \<lfloor>q\<rfloor>; d = q - of_int f
      in if d < 1 / 2 then f
         else if 1 / 2 < d then f + 1
         else if even f then f else f + 1)"

definition round_double :: "rat \<Rightarrow> rat" where
  "round_double x = (if x = 0 then 0 else of_int (round_half_even (x / ulp x)) * ulp x)"

text \<open>\<^verbatim>\<open>a + b\<close> on two doubles: the exact sum, rounded once.\<close>

definition fadd :: "rat \<Rightarrow> rat \<Rightarrow> rat" where
  "fadd a b = round_double (a + b)"

subsection \<open>\<^verbatim>\<open>make_one_move\<close>\<close>

text \<open>
  The scan of lines 110-113 over the columns still to do, with the running sum
  \<^verbatim>\<open>psum\<close> as an argument. \<^verbatim>\<open>psum += transition_matrix[page][j]\<close> is a double
  addition, and the comparison on line 112 reads its rounded result. The value \<open>r\<close>
  drawn on line 107 is an argument of the model. Running off the end of the loop is
  Python's implicit \<^verbatim>\<open>return None\<close>, the result \<open>Inr None\<close> here.
\<close>

fun scan_row ::
    "rat list list \<Rightarrow> int \<Rightarrow> rat \<Rightarrow> nat list \<Rightarrow> rat \<Rightarrow> py_error + nat option" where
  "scan_row tm page r [] psum = Inr None"
| "scan_row tm page r (j # js) psum =
     (case getitem tm page of
        Inl e \<Rightarrow> Inl e
      | Inr row \<Rightarrow>
          (case getitem row (int j) of
             Inl e \<Rightarrow> Inl e
           | Inr p \<Rightarrow>
               if fadd psum p \<ge> r then Inr (Some j)
               else scan_row tm page r js (fadd psum p)))"

definition make_one_move :: "rat list list \<Rightarrow> int \<Rightarrow> rat \<Rightarrow> py_error + nat option" where
  "make_one_move tm page r = scan_row tm page r [0..<length tm] 0"

subsection \<open>\<^verbatim>\<open>random_surfer\<close>\<close>

text \<open>
  The process-wide random source is a function \<open>draws\<close>: step \<open>t\<close> of the loop on
  line 133 calls \<^verbatim>\<open>make_one_move\<close> once, which draws \<open>draws t\<close>. The loop state is
  the pair of \<^verbatim>\<open>page\<close> and \<^verbatim>\<open>times_visited\<close>. A \<^verbatim>\<open>None\<close> coming back from
  \<^verbatim>\<open>make_one_move\<close> is used as a list index on line 135, a \<^verbatim>\<open>TypeError\<close>.
\<close>

fun surfer_loop ::
    "rat list list \<Rightarrow> (nat \<Rightarrow> rat) \<Rightarrow> nat list \<Rightarrow> int \<times> int list
      \<Rightarrow> py_error + int \<times> int list" where
  "surfer_loop tm draws [] st = Inr st"
| "surfer_loop tm draws (t # ts) (page, times_visited) =
     (case make_one_move tm page (draws t) of
        Inl e \<Rightarrow> Inl e
      | Inr None \<Rightarrow> Inl TypeError
      | Inr (Some page') \<Rightarrow>
          (case getitem times_visited (int page') of
             Inl e \<Rightarrow> Inl e
           | Inr c \<Rightarrow>
               (case setitem times_visited (int page') (c + 1) of
                  Inl e \<Rightarrow> Inl e
                | Inr times_visited' \<Rightarrow>
                    surfer_loop tm draws ts (int page', times_visited'))))"

text \<open>
  Lines 137-139: each tally is divided by \<^verbatim>\<open>num_steps\<close> and printed. The model
  returns the values \<open>v\<close> in the order they are printed; the three-decimal
  formatting is not modelled.
\<close>

fun surfer_report :: "int list \<Rightarrow> int \<Rightarrow> py_error + rat list" where
  "surfer_report [] num_steps = Inr []"
| "surfer_report (count # rest) num_steps =
     (if num_steps = 0 then Inl ZeroDivisionError
      else (case surfer_report rest num_steps of
              Inl e \<Rightarrow> Inl e
            | Inr vs \<Rightarrow> Inr (of_int count / of_int num_steps # vs)))"

definition random_surfer :: "rat list list \<Rightarrow> int \<Rightarrow> (nat \<Rightarrow> rat) \<Rightarrow> py_error + rat list" where
  "random_surfer tm num_steps draws =
     (let n = length tm
      in case surfer_loop tm draws [0..<nat num_steps] (0, replicate n 0) of
           Inl e \<Rightarrow> Inl e
         | Inr (page, times_visited) \<Rightarrow> surfer_report times_visited num_steps)"

subsection \<open>\<^verbatim>\<open>markov_mixing\<close>\<close>

text \<open>
  Line 164, \<^verbatim>\<open>new_rank[i] = new_rank[i] + rank[j] * transition_matrix[j][i]\<close>, inside
  the loop over \<open>j\<close> (line 163), the loop over \<open>i\<close> (line 162) and the loop over the
  steps (line 159).
\<close>

fun mixing_inner ::
    "rat list list \<Rightarrow> rat list \<Rightarrow> nat \<Rightarrow> nat list \<Rightarrow> rat list \<Rightarrow> py_error + rat list" where
  "mixing_inner tm rank i [] new_rank = Inr new_rank"
| "mixing_inner tm rank i (j # js) new_rank =
     (case getitem new_rank (int i) of
        Inl e \<Rightarrow> Inl e
      | Inr a \<Rightarrow>
          (case getitem rank (int j) of
             Inl e \<Rightarrow> Inl e
           | Inr x \<Rightarrow>
               (case getitem tm (int j) of
                  Inl e \<Rightarrow> Inl e
                | Inr row \<Rightarrow>
                    (case getitem row (int i) of
                       Inl e \<Rightarrow> Inl e
                     | Inr p \<Rightarrow>
                         (case setitem new_rank (int i) (a + x * p) of
                            Inl e \<Rightarrow> Inl e
                          | Inr new_rank' \<Rightarrow> mixing_inner tm rank i js new_rank')))))"

fun mixing_outer ::
    "rat list list \<Rightarrow> rat list \<Rightarrow> nat \<Rightarrow> nat list \<Rightarrow> rat list \<Rightarrow> py_error + rat list" where
  "mixing_outer tm rank n [] new_rank = Inr new_rank"
| "mixing_outer tm rank n (i # is) new_rank =
     (case mixing_inner tm rank i [0..<n] new_rank of
        Inl e \<Rightarrow> Inl e
      | Inr new_rank' \<Rightarrow> mixing_outer tm rank n is new_rank')"

fun mixing_loop :: "rat list list \<Rightarrow> nat \<Rightarrow> nat list \<Rightarrow> rat list \<Rightarrow> py_error + rat list" where
  "mixing_loop tm n [] rank = Inr rank"
| "mixing_loop tm n (t # ts) rank =
     (case mixing_outer tm rank n [0..<n] (replicate n 0) of
        Inl e \<Rightarrow> Inl e
      | Inr new_rank \<Rightarrow> mixing_loop tm n ts new_rank)"

text \<open>
  Lines 155-169. \<^verbatim>\<open>rank[0] = 1.0\<close> on an empty list raises \<^verbatim>\<open>IndexError\<close>. The
  model returns the values printed, unformatted.
\<close>

definition markov_mixing :: "rat list list \<Rightarrow> int \<Rightarrow> py_error + rat list" where
  "markov_mixing tm num_steps =
     (let n = length tm
      in case setitem (replicate n 0) 0 1 of
           Inl e \<Rightarrow> Inl e
         | Inr rank \<Rightarrow> mixing_loop tm n [0..<nat num_steps] rank)"

subsection \<open>The vocabulary of the specification\<close>

text \<open>An \<open>n\<close>-by-\<open>n\<close> matrix: \<open>n\<close> rows of \<open>n\<close> entries each.\<close>

definition square_matrix :: "nat \<Rightarrow> 'a list list \<Rightarrow> bool" where
  "square_matrix n m \<longleftrightarrow> length m = n \<and> (\<forall>row \<in> set m. length row = n)"

text \<open>Row-stochastic: square, no negative entry, every row sums to one.\<close>

definition row_stochastic :: "rat list list \<Rightarrow> bool" where
  "row_stochastic tm \<longleftrightarrow>
     square_matrix (length tm) tm
     \<and> (\<forall>row \<in> set tm. (\<forall>p \<in> set row. 0 \<le> p) \<and> sum_list row = 1)"

text \<open>
  The valid inputs of the transition model: square counts without negative entries,
  out-degrees of at least one, and each out-degree the sum of its row of counts.
\<close>

definition valid_counts :: "int list list \<Rightarrow> int list \<Rightarrow> bool" where
  "valid_counts counts out_degree \<longleftrightarrow>
     square_matrix (length out_degree) counts
     \<and> (\<forall>row \<in> set counts. \<forall>c \<in> set row. 0 \<le> c)
     \<and> (\<forall>d \<in> set out_degree. 1 \<le> d)"

definition consistent_counts :: "int list list \<Rightarrow> int list \<Rightarrow> bool" where
  "consistent_counts counts out_degree \<longleftrightarrow>
     valid_counts counts out_degree
     \<and> (\<forall>i < length out_degree. sum_list (counts ! i) = out_degree ! i)"

text \<open>
  The entry the specification gives for cell \<open>(i, j)\<close> of the transition matrix,
  \<open>0.9 * (counts[i][j] / out_degree[i]) + 0.1 * (1/n)\<close>.
\<close>

definition transition_value :: "int list list \<Rightarrow> int list \<Rightarrow> nat \<Rightarrow> nat \<Rightarrow> nat \<Rightarrow> rat" where
  "transition_value counts out_degree n i j =
     0.9 * (of_int (counts ! i ! j) / of_int (out_degree ! i)) + 0.1 * (1 / of_nat n)"

text \<open>The exact cumulative sum of a row over the positions \<open>0\<close> through \<open>j\<close>.\<close>

definition cumulative :: "rat list \<Rightarrow> nat \<Rightarrow> rat" where
  "cumulative row j = sum_list (take (Suc j) row)"

text \<open>
  The running sum as the scan holds it after column \<open>j\<close>: the entries at positions \<open>0\<close>
  through \<open>j\<close> added from left to right in double precision, starting from \<open>0.0\<close>.
\<close>

definition running_sum :: "rat list \<Rightarrow> nat \<Rightarrow> rat" where
  "running_sum row j = foldl fadd 0 (take (Suc j) row)"

text \<open>
  The specification's Markov step, \<open>new_rank[i] = \<Sigma>\<^sub>j rank[j] * transition_matrix[j][i]\<close>,
  and its starting distribution with all mass on node \<open>0\<close>. These two follow the
  specification's words; \<open>markov_mixing\<close> above follows the code.
\<close>

definition left_multiply :: "rat list list \<Rightarrow> rat list \<Rightarrow> rat list" where
  "left_multiply tm rank =
     map (\<lambda>i. sum_list (map (\<lambda>j. rank ! j * tm ! j ! i) [0..<length tm])) [0..<length tm]"

definition initial_distribution :: "nat \<Rightarrow> rat list" where
  "initial_distribution n = map (\<lambda>i. if i = 0 then 1 else 0) [0..<n]"

section \<open>Properties\<close>

subsection \<open>List access at the indices a \<^verbatim>\<open>range\<close> loop produces\<close>

lemma getitem_nat:
  "getitem xs (int k) = (if k < length xs then Inr (xs ! k) else Inl IndexError)"
  by (simp add: getitem_def py_in_range_def py_pos_def)

lemma setitem_nat:
  "setitem xs (int k) v = (if k < length xs then Inr (xs[k := v]) else Inl IndexError)"
  by (simp add: setitem_def py_in_range_def py_pos_def)

lemma setitem2_nat:
  "i < length m \<Longrightarrow> j < length (m ! i) \<Longrightarrow>
   setitem2 m (int i) (int j) v = Inr (m[i := (m ! i)[j := v]])"
  by (simp add: setitem2_def getitem_nat setitem_nat py_pos_def)

subsection \<open>Loops that assign one cell per iteration\<close>

lemma length_fold_update:
  "length (fold (\<lambda>j ys. ys[j := g j (ys ! j)]) js xs) = length xs"
  by (induction js arbitrary: xs) simp_all

lemma nth_fold_update:
  "distinct js \<Longrightarrow> k < length xs \<Longrightarrow>
   fold (\<lambda>j ys. ys[j := g j (ys ! j)]) js xs ! k = (if k \<in> set js then g k (xs ! k) else xs ! k)"
proof (induction js arbitrary: xs)
  case Nil
  then show ?case by simp
next
  case (Cons j js)
  let ?xs' = "xs[j := g j (xs ! j)]"
  from Cons.prems have d: "distinct js" and nj: "j \<notin> set js" by simp_all
  have "fold (\<lambda>j ys. ys[j := g j (ys ! j)]) js ?xs' ! k
        = (if k \<in> set js then g k (?xs' ! k) else ?xs' ! k)"
    using Cons.IH [OF d, of ?xs'] Cons.prems(2) by simp
  then show ?case using nj Cons.prems(2) by (cases "k = j") auto
qed

lemma fold_update_upt:
  assumes "length xs = n"
  shows "fold (\<lambda>j ys. ys[j := g j (ys ! j)]) [0..<n] xs = map (\<lambda>j. g j (xs ! j)) [0..<n]"
  by (rule nth_equalityI) (simp_all add: assms length_fold_update nth_fold_update)

subsection \<open>The transition model in closed form\<close>

lemma transition_cols_fold:
  assumes "i < length tm"
    and "\<forall>j \<in> set js. j < length (tm ! i) \<and> transition_entry counts out_degree n i j = Inr (f j)"
  shows "transition_cols counts out_degree n i js tm
         = Inr (tm[i := fold (\<lambda>j ys. ys[j := f j]) js (tm ! i)])"
  using assms
proof (induction js arbitrary: tm)
  case Nil
  then show ?case by simp
next
  case (Cons j js)
  let ?tm' = "tm[i := (tm ! i)[j := f j]]"
  from Cons.prems have j: "j < length (tm ! i)" and e: "transition_entry counts out_degree n i j = Inr (f j)"
    by simp_all
  have s: "setitem2 tm (int i) (int j) (f j) = Inr ?tm'"
    using Cons.prems(1) j by (rule setitem2_nat)
  have "transition_cols counts out_degree n i js ?tm'
        = Inr (?tm'[i := fold (\<lambda>j ys. ys[j := f j]) js (?tm' ! i)])"
    using Cons.prems by (intro Cons.IH) simp_all
  then show ?case using Cons.prems(1) by (simp add: e s)
qed

lemma transition_rows_fold:
  assumes "\<forall>i \<in> set is. i < length tm \<and> length (tm ! i) = n
             \<and> (\<forall>j<n. transition_entry counts out_degree n i j = Inr (f i j))"
    and "\<forall>row \<in> set tm. length row = n"
  shows "transition_rows counts out_degree n is tm
         = Inr (fold (\<lambda>i m. m[i := map (f i) [0..<n]]) is tm)"
  using assms
proof (induction "is" arbitrary: tm)
  case Nil
  then show ?case by simp
next
  case (Cons i "is")
  let ?tm' = "tm[i := map (f i) [0..<n]]"
  from Cons.prems(1) have i: "i < length tm" and len: "length (tm ! i) = n"
    and e: "\<forall>j<n. transition_entry counts out_degree n i j = Inr (f i j)"
    by simp_all
  have "transition_cols counts out_degree n i [0..<n] tm
        = Inr (tm[i := fold (\<lambda>j ys. ys[j := f i j]) [0..<n] (tm ! i)])"
    using i len e by (intro transition_cols_fold) simp_all
  moreover have "fold (\<lambda>j ys. ys[j := f i j]) [0..<n] (tm ! i) = map (f i) [0..<n]"
    using fold_update_upt [OF len, of "\<lambda>j _. f i j"] by simp
  ultimately have c: "transition_cols counts out_degree n i [0..<n] tm = Inr ?tm'"
    by simp
  have rows: "\<forall>row \<in> set ?tm'. length row = n"
    using Cons.prems(2) by (auto dest!: set_update_subset_insert [THEN subsetD])
  have "transition_rows counts out_degree n is ?tm'
        = Inr (fold (\<lambda>i m. m[i := map (f i) [0..<n]]) is ?tm')"
  proof (rule Cons.IH [OF _ rows], intro ballI conjI)
    fix k assume k: "k \<in> set is"
    with Cons.prems(1) show "k < length ?tm'" by simp
    from k Cons.prems(1) have "k < length tm" by simp
    then have "?tm' ! k \<in> set ?tm'" by simp
    with rows show "length (?tm' ! k) = n" by blast
    from k Cons.prems(1) show "\<forall>j<n. transition_entry counts out_degree n k j = Inr (f k j)" by simp
  qed
  then show ?case by (simp add: c)
qed

lemma transition_entry_ok:
  assumes "i < length counts" "j < length (counts ! i)" "i < length out_degree"
    "out_degree ! i \<noteq> 0" "0 < n"
  shows "transition_entry counts out_degree n i j = Inr (transition_value counts out_degree n i j)"
  using assms by (simp add: transition_entry_def getitem_nat transition_value_def)

lemma compute_transition_closed:
  assumes "square_matrix (length out_degree) counts" "\<forall>d \<in> set out_degree. d \<noteq> 0"
  shows "compute_transition counts out_degree
         = Inr (map (\<lambda>i. map (transition_value counts out_degree (length out_degree) i)
                  [0..<length out_degree]) [0..<length out_degree])"
proof -
  let ?n = "length out_degree"
  let ?f = "transition_value counts out_degree ?n"
  let ?z = "replicate ?n (replicate ?n (0::rat))"
  have e: "\<forall>i \<in> set [0..<?n]. i < length ?z \<and> length (?z ! i) = ?n
             \<and> (\<forall>j<?n. transition_entry counts out_degree ?n i j = Inr (?f i j))"
  proof (intro ballI conjI allI impI)
    fix i assume "i \<in> set [0..<?n]"
    then have i: "i < ?n" by simp
    then show "i < length ?z" "length (?z ! i) = ?n" by simp_all
    fix j assume j: "j < ?n"
    from i assms(1) have "length (counts ! i) = ?n" by (simp add: square_matrix_def)
    moreover from i have "0 < ?n" by arith
    moreover from i assms(2) have "out_degree ! i \<noteq> 0" by simp
    moreover from i assms(1) have "i < length counts" by (simp add: square_matrix_def)
    ultimately show "transition_entry counts out_degree ?n i j = Inr (?f i j)"
      using i j by (intro transition_entry_ok) simp_all
  qed
  have "transition_rows counts out_degree ?n [0..<?n] ?z
        = Inr (fold (\<lambda>i m. m[i := map (?f i) [0..<?n]]) [0..<?n] ?z)"
    by (rule transition_rows_fold [OF e]) simp
  moreover have "fold (\<lambda>i m. m[i := map (?f i) [0..<?n]]) [0..<?n] ?z
                 = map (\<lambda>i. map (?f i) [0..<?n]) [0..<?n]"
    using fold_update_upt [of ?z ?n "\<lambda>i _. map (?f i) [0..<?n]"] by simp
  ultimately show ?thesis by (simp add: compute_transition_def Let_def)
qed

text \<open>
  Claim C1. For \<open>n > 0\<close>, an \<open>n\<close>-by-\<open>n\<close> matrix \<open>counts\<close> and a length-\<open>n\<close> vector
  \<open>out_degree\<close> without a zero entry, \<open>compute_transition\<close> returns (raises nothing) an
  \<open>n\<close>-by-\<open>n\<close> matrix \<open>T\<close> with
  \<open>T[i][j] = 0.9 * (counts[i][j] / out_degree[i]) + 0.1 * (1/n)\<close> for all \<open>i, j < n\<close>.
  The signs of the counts play no role.
\<close>

theorem compute_transition_formula:
  assumes "0 < length out_degree"
    and "square_matrix (length out_degree) counts"
    and "\<forall>d \<in> set out_degree. d \<noteq> 0"
  shows "\<exists>T. compute_transition counts out_degree = Inr T
           \<and> square_matrix (length out_degree) T
           \<and> (\<forall>i < length out_degree. \<forall>j < length out_degree.
                T ! i ! j = 0.9 * (of_int (counts ! i ! j) / of_int (out_degree ! i))
                            + 0.1 * (1 / of_nat (length out_degree)))"
  using compute_transition_closed [OF assms(2,3)]
  by (simp add: square_matrix_def transition_value_def)

theorem compute_transition_formula_witness:
  "\<exists>T. compute_transition [[0, 1, 0], [0, 0, 1], [1, 0, 0]] [1, 1, 1] = Inr T
      \<and> square_matrix 3 T \<and> T ! 0 ! 1 = 14 / 15 \<and> T ! 2 ! 1 = 1 / 30"
proof -
  have h1: "0 < length [1, 1, 1 :: int]" by simp
  have h2: "square_matrix (length [1, 1, 1 :: int]) [[0, 1, 0], [0, 0, 1], [1, 0, 0 :: int]]"
    by (simp add: square_matrix_def)
  have h3: "\<forall>d \<in> set [1, 1, 1 :: int]. d \<noteq> 0" by simp
  from compute_transition_formula [OF h1 h2 h3] obtain T where
    T: "compute_transition [[0, 1, 0], [0, 0, 1], [1, 0, 0]] [1, 1, 1] = Inr T"
      "square_matrix (length [1, 1, 1 :: int]) T"
    and cells: "\<forall>i < length [1, 1, 1 :: int]. \<forall>j < length [1, 1, 1 :: int].
        T ! i ! j = 0.9 * (of_int ([[0, 1, 0], [0, 0, 1], [1, 0, 0]] ! i ! j)
                            / of_int ([1, 1, 1] ! i))
                    + 0.1 * (1 / of_nat (length [1, 1, 1 :: int]))"
    by blast
  from cells have "T ! 0 ! 1 = 14 / 15" by simp
  moreover from cells have "T ! 2 ! 1 = 1 / 30" by simp
  moreover from T(2) have "square_matrix 3 T" by (simp add: numeral_3_eq_3)
  ultimately show ?thesis using T(1) by blast
qed

subsection \<open>Row sums and the teleport floor\<close>

lemma sum_list_of_int: "sum_list (map of_int xs) = (of_int (sum_list xs) :: rat)"
  by (induction xs) simp_all

lemma sum_list_nth_upt:
  "sum_list (map (\<lambda>j. (of_int (xs ! j) :: rat)) [0..<length xs]) = of_int (sum_list xs)"
proof -
  have "map (\<lambda>j. (of_int (xs ! j) :: rat)) [0..<length xs] = map of_int (map ((!) xs) [0..<length xs])"
    by simp
  also have "\<dots> = map of_int xs" by (simp only: map_nth)
  finally show ?thesis by (simp add: sum_list_of_int)
qed

lemma transition_value_row_sum:
  assumes "length (counts ! i) = n" "0 < n" "out_degree ! i \<noteq> 0"
    "sum_list (counts ! i) = out_degree ! i"
  shows "sum_list (map (transition_value counts out_degree n i) [0..<n]) = 1"
proof -
  let ?d = "of_int (out_degree ! i) :: rat"
  have "sum_list (map (transition_value counts out_degree n i) [0..<n])
        = sum_list (map (\<lambda>j. (9 / 10 / ?d) * of_int (counts ! i ! j) + 1 / 10 / of_nat n) [0..<n])"
    by (intro arg_cong [where f = sum_list] map_cong refl) (simp add: transition_value_def)
  also have "\<dots> = (9 / 10 / ?d) * sum_list (map (\<lambda>j. of_int (counts ! i ! j)) [0..<n])
                  + of_nat n * (1 / 10 / of_nat n)"
    by (simp only: sum_list_addf sum_list_const_mult sum_list_triv length_upt diff_zero)
  also have "sum_list (map (\<lambda>j. (of_int (counts ! i ! j) :: rat)) [0..<n]) = ?d"
    using sum_list_nth_upt [of "counts ! i"] assms(1,4) by simp
  finally show ?thesis using assms(2,3) by simp
qed

lemma transition_value_floor:
  assumes "0 \<le> counts ! i ! j" "1 \<le> out_degree ! i"
  shows "0.1 / of_nat n \<le> transition_value counts out_degree n i j"
proof -
  have "0 \<le> (of_int (counts ! i ! j) :: rat) / of_int (out_degree ! i)"
    using assms by (intro divide_nonneg_nonneg) simp_all
  then show ?thesis by (simp add: transition_value_def)
qed

lemma valid_counts_nonzero:
  "valid_counts counts out_degree \<Longrightarrow> \<forall>d \<in> set out_degree. d \<noteq> 0"
  by (fastforce simp: valid_counts_def)

text \<open>
  Claim C2. For \<open>n > 0\<close> and valid input (counts not negative, every out-degree at
  least one and equal to the sum of its row of counts), \<open>compute_transition\<close> returns a
  matrix every row of which sums to exactly \<open>1\<close>, over exact rational arithmetic.
\<close>

theorem compute_transition_rows_sum_to_one:
  assumes "0 < length out_degree" and "consistent_counts counts out_degree"
  shows "\<exists>T. compute_transition counts out_degree = Inr T
           \<and> square_matrix (length out_degree) T
           \<and> (\<forall>row \<in> set T. sum_list row = 1)"
proof -
  let ?n = "length out_degree"
  let ?T = "map (\<lambda>i. map (transition_value counts out_degree ?n i) [0..<?n]) [0..<?n]"
  from assms(2) have v: "valid_counts counts out_degree"
    and s: "\<forall>i < ?n. sum_list (counts ! i) = out_degree ! i"
    by (simp_all add: consistent_counts_def)
  from v have sq: "square_matrix ?n counts" by (simp add: valid_counts_def)
  have T: "compute_transition counts out_degree = Inr ?T"
    using sq valid_counts_nonzero [OF v] by (rule compute_transition_closed)
  have "sum_list row = 1" if "row \<in> set ?T" for row
  proof -
    from that obtain i where i: "i < ?n"
      and row: "row = map (transition_value counts out_degree ?n i) [0..<?n]"
      by auto
    from i sq have "length (counts ! i) = ?n" by (simp add: square_matrix_def)
    moreover from i valid_counts_nonzero [OF v] have "out_degree ! i \<noteq> 0" by simp
    moreover from i s have "sum_list (counts ! i) = out_degree ! i" by simp
    ultimately show ?thesis
      unfolding row using assms(1) by (intro transition_value_row_sum)
  qed
  then show ?thesis using T by (simp add: square_matrix_def)
qed

theorem compute_transition_rows_sum_to_one_witness:
  "\<exists>T. compute_transition [[1, 1], [2, 0]] [2, 2] = Inr T
      \<and> square_matrix (length [2, 2 :: int]) T
      \<and> (\<forall>row \<in> set T. sum_list row = 1)"
proof -
  have "0 < length [2, 2 :: int]" by simp
  moreover have "consistent_counts [[1, 1], [2, 0]] [2, 2]"
    by (simp add: consistent_counts_def valid_counts_def square_matrix_def less_Suc_eq)
  ultimately show ?thesis by (rule compute_transition_rows_sum_to_one)
qed

text \<open>
  Claim C7. For \<open>n \<ge> 1\<close> and valid input (counts not negative, every out-degree at
  least one), every entry of the matrix \<open>compute_transition\<close> returns is at least
  \<open>0.1/n\<close>, and so none is zero.
\<close>

theorem compute_transition_teleport_floor:
  assumes "0 < length out_degree" and "valid_counts counts out_degree"
  shows "\<exists>T. compute_transition counts out_degree = Inr T
           \<and> square_matrix (length out_degree) T
           \<and> (\<forall>row \<in> set T. \<forall>p \<in> set row. 0.1 / of_nat (length out_degree) \<le> p \<and> p \<noteq> 0)"
proof -
  let ?n = "length out_degree"
  let ?T = "map (\<lambda>i. map (transition_value counts out_degree ?n i) [0..<?n]) [0..<?n]"
  from assms(2) have sq: "square_matrix ?n counts" by (simp add: valid_counts_def)
  have T: "compute_transition counts out_degree = Inr ?T"
    using sq valid_counts_nonzero [OF assms(2)] by (rule compute_transition_closed)
  have pos: "(0::rat) < 0.1 / of_nat ?n" using assms(1) by simp
  have "0.1 / of_nat ?n \<le> p \<and> p \<noteq> 0" if "row \<in> set ?T" "p \<in> set row" for row p
  proof -
    from that obtain i j where i: "i < ?n" and j: "j < ?n"
      and p: "p = transition_value counts out_degree ?n i j"
      by auto
    from i sq have ci: "counts ! i \<in> set counts" and "length (counts ! i) = ?n"
      by (simp_all add: square_matrix_def)
    with j have "counts ! i ! j \<in> set (counts ! i)" by simp
    with ci assms(2) have "0 \<le> counts ! i ! j" by (simp add: valid_counts_def)
    moreover from i assms(2) have "1 \<le> out_degree ! i" by (simp add: valid_counts_def)
    ultimately have le: "0.1 / of_nat ?n \<le> p" unfolding p by (rule transition_value_floor)
    from pos le have "0 < p" by (rule less_le_trans)
    with le show ?thesis by simp
  qed
  then show ?thesis using T by (simp add: square_matrix_def)
qed

theorem compute_transition_teleport_floor_witness:
  "\<exists>T. compute_transition [[0, 3], [1, 1]] [3, 2] = Inr T
      \<and> square_matrix (length [3, 2 :: int]) T
      \<and> (\<forall>row \<in> set T. \<forall>p \<in> set row. 0.1 / of_nat (length [3, 2 :: int]) \<le> p \<and> p \<noteq> 0)"
proof -
  have "0 < length [3, 2 :: int]" by simp
  moreover have "valid_counts [[0, 3], [1, 1]] [3, 2]"
    by (simp add: valid_counts_def square_matrix_def)
  ultimately show ?thesis by (rule compute_transition_teleport_floor)
qed

subsection \<open>A zero out-degree\<close>

lemma transition_entry_zero:
  assumes "i < length counts" "j < length (counts ! i)" "i < length out_degree"
    "out_degree ! i = 0"
  shows "transition_entry counts out_degree n i j = Inl ZeroDivisionError"
  using assms by (simp add: transition_entry_def getitem_nat)

lemma transition_cols_zero:
  assumes "0 < n" "i < length counts" "length (counts ! i) = n" "i < length out_degree"
    "out_degree ! i = 0"
  shows "transition_cols counts out_degree n i [0..<n] tm = Inl ZeroDivisionError"
proof -
  from assms(1) have "[0..<n] = 0 # [1..<n]" by (simp add: upt_conv_Cons)
  moreover have "transition_entry counts out_degree n i 0 = Inl ZeroDivisionError"
    using assms by (intro transition_entry_zero) simp_all
  ultimately show ?thesis by simp
qed

lemma transition_rows_zero:
  assumes "0 < n"
    and "\<forall>i \<in> set is. i < length tm \<and> i < length counts \<and> length (counts ! i) = n
           \<and> i < length out_degree"
    and "\<forall>row \<in> set tm. length row = n"
    and "\<exists>i \<in> set is. out_degree ! i = 0"
  shows "transition_rows counts out_degree n is tm = Inl ZeroDivisionError"
  using assms(2-4)
proof (induction "is" arbitrary: tm)
  case Nil
  then show ?case by simp
next
  case (Cons i "is")
  from Cons.prems(1) have i: "i < length tm" "i < length counts" "length (counts ! i) = n"
    "i < length out_degree" by simp_all
  show ?case
  proof (cases "out_degree ! i = 0")
    case True
    with assms(1) i show ?thesis by (simp add: transition_cols_zero)
  next
    case False
    let ?f = "transition_value counts out_degree n i"
    let ?tm' = "tm[i := fold (\<lambda>j ys. ys[j := ?f j]) [0..<n] (tm ! i)]"
    from i(1) Cons.prems(2) have len: "length (tm ! i) = n" by simp
    have "\<forall>j \<in> set [0..<n]. j < length (tm ! i)
            \<and> transition_entry counts out_degree n i j = Inr (?f j)"
      using i len False assms(1) by (simp add: transition_entry_ok)
    with i(1) have c: "transition_cols counts out_degree n i [0..<n] tm = Inr ?tm'"
      by (rule transition_cols_fold)
    have "length (fold (\<lambda>j ys. ys[j := ?f j]) [0..<n] (tm ! i)) = n"
      using length_fold_update [of "\<lambda>j _. ?f j" "[0..<n]" "tm ! i"] len by simp
    with Cons.prems(2) have rows: "\<forall>row \<in> set ?tm'. length row = n"
      by (auto dest!: set_update_subset_insert [THEN subsetD])
    from Cons.prems(3) False have z: "\<exists>k \<in> set is. out_degree ! k = 0" by simp
    from Cons.prems(1) have "\<forall>k \<in> set is. k < length ?tm' \<and> k < length counts
        \<and> length (counts ! k) = n \<and> k < length out_degree" by simp
    then have "transition_rows counts out_degree n is ?tm' = Inl ZeroDivisionError"
      using rows z by (rule Cons.IH)
    with c show ?thesis by simp
  qed
qed

text \<open>
  Claim C9. When some node \<open>i\<close> has \<open>out_degree[i] = 0\<close> (so \<open>n > 0\<close>) and \<open>counts\<close> is
  \<open>n\<close>-by-\<open>n\<close>, \<open>compute_transition\<close> ends in \<^verbatim>\<open>ZeroDivisionError\<close>: the division on
  line 90 raises, nothing catches it, no other error is raised in its place and no
  matrix is returned.
\<close>

theorem compute_transition_zero_out_degree:
  assumes "square_matrix (length out_degree) counts"
    and "i < length out_degree" and "out_degree ! i = 0"
  shows "compute_transition counts out_degree = Inl ZeroDivisionError"
proof -
  let ?n = "length out_degree"
  from assms(2) have n: "0 < ?n" by arith
  have "\<forall>k \<in> set [0..<?n]. k < length (replicate ?n (replicate ?n (0::rat)))
          \<and> k < length counts \<and> length (counts ! k) = ?n \<and> k < length out_degree"
    using assms(1) by (simp add: square_matrix_def)
  moreover have "\<forall>row \<in> set (replicate ?n (replicate ?n (0::rat))). length row = ?n"
    by simp
  moreover from assms(2,3) have "\<exists>k \<in> set [0..<?n]. out_degree ! k = 0"
    by auto
  ultimately have "transition_rows counts out_degree ?n [0..<?n]
      (replicate ?n (replicate ?n 0)) = Inl ZeroDivisionError"
    by (rule transition_rows_zero [OF n])
  then show ?thesis by (simp add: compute_transition_def Let_def)
qed

theorem compute_transition_zero_out_degree_witness:
  "compute_transition [[0, 1], [0, 0]] [1, 0] = Inl ZeroDivisionError"
proof -
  have "square_matrix (length [1, 0 :: int]) [[0, 1], [0, 0 :: int]]"
    by (simp add: square_matrix_def)
  moreover have "1 < length [1, 0 :: int]" by simp
  moreover have "[1, 0 :: int] ! 1 = 0" by simp
  ultimately show ?thesis by (rule compute_transition_zero_out_degree)
qed

subsection \<open>The scan of \<^verbatim>\<open>make_one_move\<close>\<close>

lemma running_sum_step:
  "k < length row \<Longrightarrow> fadd (foldl fadd 0 (take k row)) (row ! k) = running_sum row k"
  by (simp add: running_sum_def take_Suc_conv_app_nth)

lemma scan_row_first:
  assumes "getitem tm page = Inr row"
    and "j < n" "j < length row"
    and "r \<le> running_sum row j"
    and "\<forall>i<j. running_sum row i < r"
    and "k \<le> j"
  shows "scan_row tm page r [k..<n] (foldl fadd 0 (take k row)) = Inr (Some j)"
  using assms(6)
proof (induction "j - k" arbitrary: k)
  case 0
  then have k: "k = j" by simp
  with assms(2) have "[k..<n] = j # [Suc j..<n]" by (simp add: upt_conv_Cons)
  then show ?case
    using assms(1,3,4) k by (simp add: getitem_nat running_sum_step)
next
  case (Suc d)
  then have kj: "k < j" by arith
  with assms(2) have u: "[k..<n] = k # [Suc k..<n]" by (simp add: upt_conv_Cons)
  from kj assms(3) have kl: "k < length row" by arith
  from kj assms(5) have "\<not> r \<le> running_sum row k" by (simp add: not_le)
  moreover have "scan_row tm page r [Suc k..<n] (foldl fadd 0 (take (Suc k) row)) = Inr (Some j)"
    using Suc.hyps(2) kj by (intro Suc.hyps(1)) arith+
  moreover have "foldl fadd 0 (take (Suc k) row) = running_sum row k"
    by (simp add: running_sum_def)
  ultimately show ?case
    using assms(1) kl by (simp add: u getitem_nat running_sum_step)
qed

lemma scan_row_exhausted:
  assumes "getitem tm page = Inr row"
    and "n \<le> length row"
    and "\<forall>i<n. running_sum row i < r"
  shows "k \<le> n \<Longrightarrow> scan_row tm page r [k..<n] (foldl fadd 0 (take k row)) = Inr None"
proof (induction "n - k" arbitrary: k)
  case 0
  then show ?case by simp
next
  case (Suc d)
  then have kn: "k < n" by arith
  then have u: "[k..<n] = k # [Suc k..<n]" by (simp add: upt_conv_Cons)
  from kn assms(2) have kl: "k < length row" by arith
  from kn assms(3) have "\<not> r \<le> running_sum row k" by (simp add: not_le)
  moreover have "scan_row tm page r [Suc k..<n] (foldl fadd 0 (take (Suc k) row)) = Inr None"
    using Suc.hyps(2) kn by (intro Suc.hyps(1)) arith+
  moreover have "foldl fadd 0 (take (Suc k) row) = running_sum row k"
    by (simp add: running_sum_def)
  ultimately show ?case
    using assms(1) kl by (simp add: u getitem_nat running_sum_step)
qed

lemma make_one_move_exhausted:
  assumes "getitem tm page = Inr row"
    and "length tm \<le> length row"
    and "\<forall>i<length tm. running_sum row i < r"
  shows "make_one_move tm page r = Inr None"
  using scan_row_exhausted [OF assms, of 0] by (simp add: make_one_move_def)

lemma make_one_move_first:
  assumes "getitem tm page = Inr row"
    and "j < length tm" "j < length row"
    and "r \<le> running_sum row j"
    and "\<forall>i<j. running_sum row i < r"
  shows "make_one_move tm page r = Inr (Some j)"
  using scan_row_first [OF assms, of 0] by (simp add: make_one_move_def)

lemma make_one_move_least:
  assumes "getitem tm page = Inr row" and "length row = length tm"
    and "j0 < length tm" and "r \<le> running_sum row j0"
  shows "\<exists>j. make_one_move tm page r = Inr (Some j) \<and> j < length tm
           \<and> r \<le> running_sum row j \<and> (\<forall>i<j. running_sum row i < r)"
proof -
  define j where "j = (LEAST j. r \<le> running_sum row j)"
  have le: "r \<le> running_sum row j"
    unfolding j_def using assms(4) by (rule LeastI)
  have "j \<le> j0"
    unfolding j_def using assms(4) by (rule Least_le)
  with assms(3) have jn: "j < length tm" by arith
  have below: "\<forall>i<j. running_sum row i < r"
    unfolding j_def using not_less_Least [of _ "\<lambda>j. r \<le> running_sum row j"]
    by (auto simp: not_le)
  from jn assms(2) have "j < length row" by simp
  with assms(1) jn le below have "make_one_move tm page r = Inr (Some j)"
    by (intro make_one_move_first)
  with jn le below show ?thesis by blast
qed

text \<open>
  Claim C4 speaks of the cumulative sum of the row's entries. The scan compares the
  running double sum instead. On the row \<open>[1 - 2^-52, 2^-54, 2^-54, 2^-54, 2^-54]\<close>
  (doubles, none negative, exact sum \<open>1\<close>) with \<open>r = 1 - 2^-53\<close> the exact cumulative
  sum reaches \<open>r\<close> at column \<open>2\<close>, but every addition of \<open>2^-54\<close> to \<open>1 - 2^-52\<close> is a
  tie that rounds back to \<open>1 - 2^-52\<close>, and no column is returned.
\<close>

theorem make_one_move_exact_sum_counterexample:
  "row_stochastic
     [[1 - 1/2^52, 1/2^54, 1/2^54, 1/2^54, 1/2^54],
      [1 - 1/2^52, 1/2^54, 1/2^54, 1/2^54, 1/2^54],
      [1 - 1/2^52, 1/2^54, 1/2^54, 1/2^54, 1/2^54],
      [1 - 1/2^52, 1/2^54, 1/2^54, 1/2^54, 1/2^54],
      [1 - 1/2^52, 1/2^54, 1/2^54, 1/2^54, 1/2^54]]
   \<and> (0::rat) \<le> 1 - 1/2^53 \<and> (1 - 1/2^53 :: rat) < 1
   \<and> 1 - 1/2^53 \<le> cumulative [1 - 1/2^52, 1/2^54, 1/2^54, 1/2^54, 1/2^54] 2
   \<and> make_one_move
       [[1 - 1/2^52, 1/2^54, 1/2^54, 1/2^54, 1/2^54],
        [1 - 1/2^52, 1/2^54, 1/2^54, 1/2^54, 1/2^54],
        [1 - 1/2^52, 1/2^54, 1/2^54, 1/2^54, 1/2^54],
        [1 - 1/2^52, 1/2^54, 1/2^54, 1/2^54, 1/2^54],
        [1 - 1/2^52, 1/2^54, 1/2^54, 1/2^54, 1/2^54]] 0 (1 - 1/2^53) = Inr None"
proof (intro conjI)
  show "row_stochastic
     [[1 - 1/2^52, 1/2^54, 1/2^54, 1/2^54, 1/2^54],
      [1 - 1/2^52, 1/2^54, 1/2^54, 1/2^54, 1/2^54],
      [1 - 1/2^52, 1/2^54, 1/2^54, 1/2^54, 1/2^54],
      [1 - 1/2^52, 1/2^54, 1/2^54, 1/2^54, 1/2^54],
      [1 - 1/2^52, 1/2^54, 1/2^54, 1/2^54, 1/2^54]]"
    by (simp add: row_stochastic_def square_matrix_def)
  show "(0::rat) \<le> 1 - 1/2^53" "(1 - 1/2^53 :: rat) < 1" by simp_all
  show "1 - 1/2^53 \<le> cumulative [1 - 1/2^52, 1/2^54, 1/2^54, 1/2^54, 1/2^54] 2"
    by (simp add: cumulative_def numeral_2_eq_2)
  show "make_one_move
       [[1 - 1/2^52, 1/2^54, 1/2^54, 1/2^54, 1/2^54],
        [1 - 1/2^52, 1/2^54, 1/2^54, 1/2^54, 1/2^54],
        [1 - 1/2^52, 1/2^54, 1/2^54, 1/2^54, 1/2^54],
        [1 - 1/2^52, 1/2^54, 1/2^54, 1/2^54, 1/2^54],
        [1 - 1/2^52, 1/2^54, 1/2^54, 1/2^54, 1/2^54]] 0 (1 - 1/2^53) = Inr None"
    by code_simp
qed

text \<open>
  Claim C4, for the running sum the scan holds. For a square transition matrix, a
  valid \<open>page\<close> and a drawn value \<open>r\<close>, whenever some column \<open>j0\<close> has a running sum
  (positions \<open>0\<close> through \<open>j0\<close> of the page's row, added from left to right in double
  precision) that reaches \<open>r\<close>, \<open>make_one_move\<close> returns the smallest such column: the
  running sum reaches \<open>r\<close> at the column returned and stays below \<open>r\<close> at every column
  to its left. This holds for every row and every \<open>r\<close>, so in particular for rows
  without negative entries and \<open>r\<close> in \<open>[0, 1)\<close>.
\<close>

theorem make_one_move_first_reaching:
  assumes "square_matrix (length tm) tm" and "py_in_range tm page"
    and "j0 < length tm" and "r \<le> running_sum (tm ! py_pos tm page) j0"
  shows "\<exists>j. make_one_move tm page r = Inr (Some j) \<and> j < length tm
           \<and> r \<le> running_sum (tm ! py_pos tm page) j
           \<and> (\<forall>i<j. running_sum (tm ! py_pos tm page) i < r)"
proof -
  let ?row = "tm ! py_pos tm page"
  from assms(2) have g: "getitem tm page = Inr ?row" by (simp add: getitem_def)
  from assms(2) have "py_pos tm page < length tm"
    by (auto simp: py_in_range_def py_pos_def)
  with assms(1) have "length ?row = length tm" by (simp add: square_matrix_def)
  with g show ?thesis using assms(3,4) by (rule make_one_move_least)
qed

theorem make_one_move_first_reaching_witness:
  "\<exists>j. make_one_move [[1/2, 1/4, 1/4], [1/4, 1/4, 1/2], [1/4, 1/2, 1/4]] 0 (5/8)
          = Inr (Some j) \<and> j = 1"
proof -
  let ?tm = "[[1/2, 1/4, 1/4], [1/4, 1/4, 1/2], [1/4, 1/2, 1/4 :: rat]]"
  have h1: "square_matrix (length ?tm) ?tm" by (simp add: square_matrix_def)
  have h2: "py_in_range ?tm 0" by (simp add: py_in_range_def)
  have h3: "1 < length ?tm" by simp
  have p: "?tm ! py_pos ?tm 0 = [1/2, 1/4, 1/4]" by (simp add: py_pos_def)
  have c0: "running_sum [1/2, 1/4, 1/4] 0 = 1/2" by code_simp
  have c1: "running_sum [1/2, 1/4, 1/4] 1 = 3/4" by code_simp
  have h4: "5/8 \<le> running_sum (?tm ! py_pos ?tm 0) 1" unfolding p c1 by simp
  from make_one_move_first_reaching [OF h1 h2 h3 h4] obtain j where
    j: "make_one_move ?tm 0 (5/8) = Inr (Some j)"
      "5/8 \<le> running_sum [1/2, 1/4, 1/4] j"
      "\<forall>i<j. running_sum [1/2, 1/4, 1/4] i < 5/8" unfolding p by blast
  have "j \<noteq> 0"
  proof
    assume "j = 0"
    with j(2) have "5/8 \<le> running_sum [1/2, 1/4, 1/4] 0" by simp
    then show False unfolding c0 by simp
  qed
  moreover have "\<not> 1 < j"
  proof
    assume "1 < j"
    from j(3) [rule_format, OF this] show False unfolding c1 by simp
  qed
  ultimately have "j = 1" by arith
  with j(1) show ?thesis by blast
qed

text \<open>
  Claim C5 says that a scan which exhausts the row selects the last column, so that
  \<open>make_one_move\<close> always returns a node index. The code has no such fallback
  (\<open>make_one_move_exhausted\<close>): on the row \<open>[0.5, 0.25]\<close> with \<open>r = 0.9\<close> the loop ends
  without returning, the result is \<^verbatim>\<open>None\<close>, and \<open>random_surfer\<close> then fails with a
  \<^verbatim>\<open>TypeError\<close> when it uses \<^verbatim>\<open>None\<close> as an index.
\<close>

theorem make_one_move_falls_through:
  "make_one_move [[1/2, 1/4], [1/2, 1/2]] 0 (9/10) = Inr None
   \<and> random_surfer [[1/2, 1/4], [1/2, 1/2]] 3 (\<lambda>t. 9/10) = Inl TypeError"
  by code_simp

subsection \<open>The random surfer\<close>

lemma tie_rows_stochastic:
  "row_stochastic
     [[1 - 1/2^52, 1/2^54, 1/2^54, 1/2^54, 1/2^54],
      [1 - 1/2^52, 1/2^54, 1/2^54, 1/2^54, 1/2^54],
      [1 - 1/2^52, 1/2^54, 1/2^54, 1/2^54, 1/2^54],
      [1 - 1/2^52, 1/2^54, 1/2^54, 1/2^54, 1/2^54],
      [1 - 1/2^52, 1/2^54, 1/2^54, 1/2^54, 1/2^54]]"
  by (simp add: row_stochastic_def square_matrix_def)

text \<open>
  Claim C6 says that on every row-stochastic matrix with \<open>n \<ge> 1\<close> and \<open>num_steps > 0\<close>
  the visit tally sums to \<open>num_steps\<close> after the loop. On the matrix of five rows
  \<open>[1 - 2^-52, 2^-54, 2^-54, 2^-54, 2^-54]\<close>, each summing to exactly \<open>1\<close>, with one step
  and the draw \<open>1 - 2^-53\<close>, the scan exhausts the row, \<open>make_one_move\<close> returns
  \<^verbatim>\<open>None\<close> as under claim C5, and \<open>random_surfer\<close> raises \<^verbatim>\<open>TypeError\<close> on line 135:
  the loop does not finish and no rank is printed.
\<close>

theorem random_surfer_stochastic_type_error:
  "sum_list [1 - 1/2^52, 1/2^54, 1/2^54, 1/2^54, 1/2^54] = (1::rat)
   \<and> random_surfer
       [[1 - 1/2^52, 1/2^54, 1/2^54, 1/2^54, 1/2^54],
        [1 - 1/2^52, 1/2^54, 1/2^54, 1/2^54, 1/2^54],
        [1 - 1/2^52, 1/2^54, 1/2^54, 1/2^54, 1/2^54],
        [1 - 1/2^52, 1/2^54, 1/2^54, 1/2^54, 1/2^54],
        [1 - 1/2^52, 1/2^54, 1/2^54, 1/2^54, 1/2^54]] 1 (\<lambda>t. 1 - 1/2^53) = Inl TypeError"
proof (intro conjI)
  show "sum_list [1 - 1/2^52, 1/2^54, 1/2^54, 1/2^54, 1/2^54] = (1::rat)"
    by simp
  show "random_surfer
       [[1 - 1/2^52, 1/2^54, 1/2^54, 1/2^54, 1/2^54],
        [1 - 1/2^52, 1/2^54, 1/2^54, 1/2^54, 1/2^54],
        [1 - 1/2^52, 1/2^54, 1/2^54, 1/2^54, 1/2^54],
        [1 - 1/2^52, 1/2^54, 1/2^54, 1/2^54, 1/2^54],
        [1 - 1/2^52, 1/2^54, 1/2^54, 1/2^54, 1/2^54]] 1 (\<lambda>t. 1 - 1/2^53) = Inl TypeError"
    by code_simp
qed

lemma surfer_report_zero:
  "times_visited \<noteq> [] \<Longrightarrow> surfer_report times_visited 0 = Inl ZeroDivisionError"
  by (cases times_visited) simp_all

text \<open>
  Claim C10. On a non-empty transition matrix, \<open>random_surfer\<close> with \<open>num_steps = 0\<close>
  raises \<^verbatim>\<open>ZeroDivisionError\<close> at the first division of line 138 and prints no rank.
\<close>

theorem random_surfer_zero_steps:
  assumes "tm \<noteq> []"
  shows "random_surfer tm 0 draws = Inl ZeroDivisionError"
proof -
  from assms have "replicate (length tm) (0::int) \<noteq> []" by simp
  then have "surfer_report (replicate (length tm) 0) 0 = Inl ZeroDivisionError"
    by (rule surfer_report_zero)
  then show ?thesis by (simp add: random_surfer_def Let_def)
qed

theorem random_surfer_zero_steps_witness:
  "random_surfer [[1/4, 3/4], [1, 0]] 0 (\<lambda>t. 1/2) = Inl ZeroDivisionError"
proof -
  have "[[1/4, 3/4], [1, 0 :: rat]] \<noteq> []" by simp
  then show ?thesis by (rule random_surfer_zero_steps)
qed

subsection \<open>Markov mixing as repeated left-multiplication\<close>

lemma mixing_inner_sum:
  assumes "i < length new_rank"
    and "\<forall>j \<in> set js. j < length rank \<and> j < length tm \<and> i < length (tm ! j)"
  shows "mixing_inner tm rank i js new_rank
         = Inr (new_rank[i := new_rank ! i + sum_list (map (\<lambda>j. rank ! j * tm ! j ! i) js)])"
  using assms
proof (induction js arbitrary: new_rank)
  case Nil
  then show ?case by simp
next
  case (Cons j js)
  let ?nr = "new_rank[i := new_rank ! i + rank ! j * tm ! j ! i]"
  from Cons.prems have j: "j < length rank" "j < length tm" "i < length (tm ! j)"
    by simp_all
  have "mixing_inner tm rank i js ?nr
        = Inr (?nr[i := ?nr ! i + sum_list (map (\<lambda>j. rank ! j * tm ! j ! i) js)])"
    using Cons.prems by (intro Cons.IH) simp_all
  then show ?case
    using Cons.prems(1) j by (simp add: getitem_nat setitem_nat add.assoc)
qed

lemma mixing_outer_fold:
  assumes "\<forall>i \<in> set is. i < length new_rank
             \<and> (\<forall>j<n. j < length rank \<and> j < length tm \<and> i < length (tm ! j))"
  shows "mixing_outer tm rank n is new_rank
         = Inr (fold (\<lambda>i ys. ys[i := ys ! i + sum_list (map (\<lambda>j. rank ! j * tm ! j ! i) [0..<n])])
                  is new_rank)"
  using assms
proof (induction "is" arbitrary: new_rank)
  case Nil
  then show ?case by simp
next
  case (Cons i "is")
  let ?nr = "new_rank[i := new_rank ! i + sum_list (map (\<lambda>j. rank ! j * tm ! j ! i) [0..<n])]"
  from Cons.prems have "i < length new_rank"
    and "\<forall>j \<in> set [0..<n]. j < length rank \<and> j < length tm \<and> i < length (tm ! j)"
    by simp_all
  then have "mixing_inner tm rank i [0..<n] new_rank = Inr ?nr"
    by (rule mixing_inner_sum)
  moreover have "mixing_outer tm rank n is ?nr
      = Inr (fold (\<lambda>i ys. ys[i := ys ! i + sum_list (map (\<lambda>j. rank ! j * tm ! j ! i) [0..<n])])
               is ?nr)"
    using Cons.prems by (intro Cons.IH) simp_all
  ultimately show ?case by simp
qed

lemma mixing_outer_left_multiply:
  assumes "square_matrix (length tm) tm" and "length rank = length tm"
  shows "mixing_outer tm rank (length tm) [0..<length tm] (replicate (length tm) 0)
         = Inr (left_multiply tm rank)"
proof -
  let ?n = "length tm"
  let ?S = "\<lambda>i. sum_list (map (\<lambda>j. rank ! j * tm ! j ! i) [0..<?n])"
  have "\<forall>i \<in> set [0..<?n]. i < length (replicate ?n (0::rat))
          \<and> (\<forall>j<?n. j < length rank \<and> j < length tm \<and> i < length (tm ! j))"
    using assms by (simp add: square_matrix_def)
  then have "mixing_outer tm rank ?n [0..<?n] (replicate ?n 0)
      = Inr (fold (\<lambda>i ys. ys[i := ys ! i + ?S i]) [0..<?n] (replicate ?n 0))"
    by (rule mixing_outer_fold)
  moreover have "fold (\<lambda>i ys. ys[i := ys ! i + ?S i]) [0..<?n] (replicate ?n 0)
      = map (\<lambda>i. replicate ?n 0 ! i + ?S i) [0..<?n]"
    using fold_update_upt [of "replicate ?n (0::rat)" ?n "\<lambda>i y. y + ?S i"] by simp
  moreover have "map (\<lambda>i. replicate ?n 0 ! i + ?S i) [0..<?n] = left_multiply tm rank"
    by (simp add: left_multiply_def)
  ultimately show ?thesis by simp
qed

lemma length_left_multiply: "length (left_multiply tm rank) = length tm"
  by (simp add: left_multiply_def)

lemma mixing_loop_power:
  assumes "square_matrix (length tm) tm"
  shows "length rank = length tm \<Longrightarrow>
    mixing_loop tm (length tm) ts rank = Inr ((left_multiply tm ^^ length ts) rank)"
proof (induction ts arbitrary: rank)
  case Nil
  then show ?case by simp
next
  case (Cons t ts)
  have "mixing_loop tm (length tm) ts (left_multiply tm rank)
        = Inr ((left_multiply tm ^^ length ts) (left_multiply tm rank))"
    by (rule Cons.IH) (rule length_left_multiply)
  then show ?case
    using mixing_outer_left_multiply [OF assms Cons.prems] by (simp add: funpow_swap1)
qed

lemma initial_rank:
  "0 < n \<Longrightarrow> setitem (replicate n (0::rat)) 0 1 = Inr (initial_distribution n)"
proof -
  assume n: "0 < n"
  have "(replicate n (0::rat))[0 := 1] = initial_distribution n"
    by (rule nth_equalityI) (auto simp: initial_distribution_def nth_list_update)
  with n show ?thesis using setitem_nat [of "replicate n (0::rat)" 0 1] by simp
qed

lemma initial_distribution_Cons:
  "0 < n \<Longrightarrow> initial_distribution n = 1 # replicate (n - 1) 0"
  by (rule nth_equalityI) (auto simp: initial_distribution_def nth_Cons')

lemma markov_mixing_power:
  assumes "square_matrix (length tm) tm" and "tm \<noteq> []"
  shows "markov_mixing tm num_steps
         = Inr ((left_multiply tm ^^ nat num_steps) (initial_distribution (length tm)))"
proof -
  from assms(2) have n: "0 < length tm" by simp
  have "length (initial_distribution (length tm)) = length tm"
    by (simp add: initial_distribution_def)
  then have "mixing_loop tm (length tm) [0..<nat num_steps] (initial_distribution (length tm))
      = Inr ((left_multiply tm ^^ length [0..<nat num_steps]) (initial_distribution (length tm)))"
    by (rule mixing_loop_power [OF assms(1)])
  then show ?thesis using initial_rank [OF n] by (simp add: markov_mixing_def Let_def)
qed

text \<open>
  Claim C3 speaks of every row-stochastic \<open>n\<close>-by-\<open>n\<close> matrix. The empty matrix is one
  (\<open>n = 0\<close>, the graph file \<^verbatim>\<open>0\<close>), and on it \<^verbatim>\<open>rank[0] = 1.0\<close> raises
  \<^verbatim>\<open>IndexError\<close>: no rank vector is computed, for no number of steps.
\<close>

theorem markov_mixing_empty_matrix:
  "row_stochastic [] \<and> markov_mixing [] 0 = Inl IndexError
   \<and> markov_mixing [] 0 \<noteq> Inr ((left_multiply [] ^^ nat 0) (initial_distribution (length [])))"
  by (simp add: row_stochastic_def square_matrix_def markov_mixing_def setitem_def
      py_in_range_def)

text \<open>
  Claim C3, for \<open>n \<ge> 1\<close>. For every row-stochastic \<open>n\<close>-by-\<open>n\<close> matrix with \<open>n \<ge> 1\<close> and
  every \<open>num_steps\<close>, \<open>markov_mixing\<close> returns the vector obtained from the distribution
  with all mass on node \<open>0\<close> by \<open>num_steps\<close> left-multiplications
  \<open>new_rank[i] = \<Sigma>\<^sub>j rank[j] * transition_matrix[j][i]\<close> (none when \<open>num_steps \<le> 0\<close>);
  with \<open>num_steps = 0\<close> the result is \<open>[1, 0, ..., 0]\<close>.
\<close>

theorem markov_mixing_left_multiplications:
  assumes "row_stochastic tm" and "tm \<noteq> []"
  shows "markov_mixing tm num_steps
           = Inr ((left_multiply tm ^^ nat num_steps) (initial_distribution (length tm)))
         \<and> initial_distribution (length tm) = 1 # replicate (length tm - 1) 0
         \<and> markov_mixing tm 0 = Inr (1 # replicate (length tm - 1) 0)"
proof -
  from assms(1) have sq: "square_matrix (length tm) tm" by (simp add: row_stochastic_def)
  from assms(2) have n: "0 < length tm" by simp
  have "markov_mixing tm 0 = Inr (initial_distribution (length tm))"
    using markov_mixing_power [OF sq assms(2), of 0] by simp
  then show ?thesis
    using markov_mixing_power [OF sq assms(2), of num_steps] initial_distribution_Cons [OF n]
    by simp
qed

theorem markov_mixing_left_multiplications_witness:
  "markov_mixing [[1/30, 14/15, 1/30], [1/30, 1/30, 14/15], [14/15, 1/30, 1/30]] 1
     = Inr [1/30, 14/15, 1/30]
   \<and> markov_mixing [[1/30, 14/15, 1/30], [1/30, 1/30, 14/15], [14/15, 1/30, 1/30]] 0
     = Inr [1, 0, 0]"
proof -
  let ?tm = "[[1/30, 14/15, 1/30], [1/30, 1/30, 14/15], [14/15, 1/30, 1/30 :: rat]]"
  have h1: "row_stochastic ?tm" by (simp add: row_stochastic_def square_matrix_def)
  have h2: "?tm \<noteq> []" by simp
  have "(left_multiply ?tm ^^ nat 1) (initial_distribution (length ?tm)) = [1/30, 14/15, 1/30]"
    by (simp add: left_multiply_def initial_distribution_def
        upt_rec [of 0] upt_rec [of 1] upt_rec [of 2])
  with markov_mixing_left_multiplications [OF h1 h2, of 1] show ?thesis by simp
qed

subsection \<open>Markov mixing keeps the total mass\<close>

lemma row_stochastic_row:
  assumes "row_stochastic tm" "p < length tm"
  shows "length (tm ! p) = length tm" "sum_list (tm ! p) = 1"
  using assms by (simp_all add: row_stochastic_def square_matrix_def)

lemma sum_list_nth_rat:
  "sum_list (map (\<lambda>j. (xs ! j :: rat)) [0..<length xs]) = sum_list xs"
  by (simp only: map_nth)

lemma sum_list_upt_swap:
  "sum_list (map (\<lambda>i. sum_list (map (\<lambda>j. (f i j :: rat)) [0..<m])) [0..<n])
   = sum_list (map (\<lambda>j. sum_list (map (\<lambda>i. f i j) [0..<n])) [0..<m])"
proof -
  have "sum_list (map (\<lambda>i. sum_list (map (\<lambda>j. f i j) [0..<m])) [0..<n])
        = (\<Sum>i = 0..<n. \<Sum>j = 0..<m. f i j)"
    by (simp add: interv_sum_list_conv_sum_set_nat)
  also have "\<dots> = (\<Sum>j = 0..<m. \<Sum>i = 0..<n. f i j)"
    by (rule sum.swap)
  also have "\<dots> = sum_list (map (\<lambda>j. sum_list (map (\<lambda>i. f i j) [0..<n])) [0..<m])"
    by (simp add: interv_sum_list_conv_sum_set_nat)
  finally show ?thesis .
qed

lemma sum_list_left_multiply:
  assumes "row_stochastic tm" and "length rank = length tm"
  shows "sum_list (left_multiply tm rank) = sum_list rank"
proof -
  let ?n = "length tm"
  have "sum_list (left_multiply tm rank)
        = sum_list (map (\<lambda>j. sum_list (map (\<lambda>i. rank ! j * tm ! j ! i) [0..<?n])) [0..<?n])"
    unfolding left_multiply_def by (rule sum_list_upt_swap)
  also have "\<dots> = sum_list (map (\<lambda>j. rank ! j) [0..<?n])"
  proof (intro arg_cong [where f = sum_list] map_cong refl)
    fix j assume "j \<in> set [0..<?n]"
    then have j: "j < ?n" by simp
    have "sum_list (map (\<lambda>i. rank ! j * tm ! j ! i) [0..<?n])
          = rank ! j * sum_list (map (\<lambda>i. tm ! j ! i) [0..<length (tm ! j)])"
      using row_stochastic_row(1) [OF assms(1) j] by (simp add: sum_list_const_mult)
    also have "\<dots> = rank ! j * sum_list (tm ! j)" by (simp only: sum_list_nth_rat)
    finally show "sum_list (map (\<lambda>i. rank ! j * tm ! j ! i) [0..<?n]) = rank ! j"
      using row_stochastic_row(2) [OF assms(1) j] by simp
  qed
  also have "\<dots> = sum_list rank"
    using sum_list_nth_rat [of rank] assms(2) by simp
  finally show ?thesis .
qed

lemma sum_list_initial_distribution:
  "0 < n \<Longrightarrow> sum_list (initial_distribution n) = 1"
  by (simp add: initial_distribution_Cons sum_list_replicate)

lemma left_multiply_power_invariant:
  assumes "row_stochastic tm" and "length rank = length tm"
  shows "length ((left_multiply tm ^^ k) rank) = length tm
         \<and> sum_list ((left_multiply tm ^^ k) rank) = sum_list rank"
proof (induction k)
  case 0
  from assms(2) show ?case by simp
next
  case (Suc k)
  then show ?case
    by (simp add: length_left_multiply sum_list_left_multiply [OF assms(1)])
qed

text \<open>
  Claim C8 too speaks of every row-stochastic matrix, and on the empty one
  \<open>markov_mixing\<close> raises \<^verbatim>\<open>IndexError\<close> instead of producing a rank vector.
\<close>

theorem markov_mixing_no_rank_for_empty_matrix:
  "row_stochastic [] \<and> markov_mixing [] 5 = Inl IndexError"
  by (simp add: row_stochastic_def square_matrix_def markov_mixing_def setitem_def
      py_in_range_def)

text \<open>
  Claim C8, for \<open>n \<ge> 1\<close>. For every row-stochastic \<open>n\<close>-by-\<open>n\<close> matrix with \<open>n \<ge> 1\<close> and
  every \<open>num_steps\<close>, \<open>markov_mixing\<close> returns a rank vector of length \<open>n\<close> that sums to
  exactly \<open>1\<close>; and one pass of the loop body (lines 160-166) turns any vector of
  length \<open>n\<close> into one with the same sum, so summing to \<open>1\<close> is an invariant of the
  loop.
\<close>

theorem markov_mixing_sums_to_one:
  assumes "row_stochastic tm" and "tm \<noteq> []"
  shows "(\<exists>rank. markov_mixing tm num_steps = Inr rank \<and> length rank = length tm
            \<and> sum_list rank = 1)
         \<and> (\<forall>rank. length rank = length tm \<longrightarrow>
              (\<exists>new_rank. mixing_outer tm rank (length tm) [0..<length tm]
                             (replicate (length tm) 0) = Inr new_rank
                 \<and> length new_rank = length tm
                 \<and> sum_list new_rank = sum_list rank))"
proof (intro conjI allI impI)
  let ?init = "initial_distribution (length tm)"
  from assms(1) have sq: "square_matrix (length tm) tm" by (simp add: row_stochastic_def)
  from assms(2) have n: "0 < length tm" by simp
  have "length ?init = length tm" by (simp add: initial_distribution_def)
  from left_multiply_power_invariant [OF assms(1) this, of "nat num_steps"]
  have "length ((left_multiply tm ^^ nat num_steps) ?init) = length tm"
    and "sum_list ((left_multiply tm ^^ nat num_steps) ?init) = 1"
    using sum_list_initial_distribution [OF n] by simp_all
  then show "\<exists>rank. markov_mixing tm num_steps = Inr rank \<and> length rank = length tm
      \<and> sum_list rank = 1"
    using markov_mixing_power [OF sq assms(2), of num_steps] by simp
  fix rank :: "rat list" assume len: "length rank = length tm"
  from sq len have "mixing_outer tm rank (length tm) [0..<length tm] (replicate (length tm) 0)
      = Inr (left_multiply tm rank)"
    by (rule mixing_outer_left_multiply)
  then show "\<exists>new_rank. mixing_outer tm rank (length tm) [0..<length tm]
         (replicate (length tm) 0) = Inr new_rank
       \<and> length new_rank = length tm \<and> sum_list new_rank = sum_list rank"
    using sum_list_left_multiply [OF assms(1) len] by (simp add: length_left_multiply)
qed

theorem markov_mixing_sums_to_one_witness:
  "(\<exists>rank. markov_mixing [[1/4, 3/4], [1, 0]] 2 = Inr rank \<and> length rank = 2
      \<and> sum_list rank = 1)
   \<and> (\<exists>new_rank. mixing_outer [[1/4, 3/4], [1, 0]] [1/3, 2/3] 2 [0..<2] (replicate 2 0)
         = Inr new_rank \<and> sum_list new_rank = 1)"
proof -
  let ?tm = "[[1/4, 3/4], [1, 0 :: rat]]"
  have h1: "row_stochastic ?tm" by (simp add: row_stochastic_def square_matrix_def)
  have h2: "?tm \<noteq> []" by simp
  have l: "length ?tm = 2" by simp
  have "length [1/3, 2/3 :: rat] = length ?tm" by simp
  with markov_mixing_sums_to_one [OF h1 h2, of 2] show ?thesis
    unfolding l by fastforce
qed

end
